theory Spec2Isabelle
  imports Complex_Main "HOL-Library.Word"
begin

unbundle bit_operations_syntax

section \<open>Errors\<close>

text \<open>
  The exceptions that can leave the modelled functions. \<open>InvalidEncoding\<close> is the
  \<open>ValueError\<close> that Python's \<open>OpCode(n)\<close> and \<open>CondFlag(n)\<close> raise for a number
  that names no member; \<open>OutOfRange\<close> is a memory access outside the memory;
  \<open>IndexError\<close> is a list index outside the register list.
\<close>

datatype error = InvalidEncoding | OutOfRange | IndexError

section \<open>Bit fields (instruction\_set/bitfield.py)\<close>

text \<open>
  \<open>BitField(from_bit, to_bit)\<close>: the bits \<open>from_bit .. to_bit\<close> of a word, both
  inclusive, bit 0 the lowest. Words are Python integers, hence \<open>int\<close>; the bit
  operations on \<open>int\<close> are those of an infinite two's complement, as Python's are.
\<close>

datatype BitField = BitField (from_bit: nat) (to_bit: nat)

definition width :: "BitField \<Rightarrow> nat" where
  "width f = to_bit f - from_bit f + 1"

text \<open>
  Modelled from the spec: \<open>BitField.extract\<close> (bitfield.py is not among the sources).
  "Returns the unsigned integer found in bits [low,high] of word, right-shifted to
  start at bit 0."
\<close>

definition BitField_extract :: "BitField \<Rightarrow> int \<Rightarrow> int" where
  "BitField_extract f word = (drop_bit (from_bit f) word) AND mask (width f)"

text \<open>
  Modelled from the spec: \<open>BitField.extract_signed\<close> (bitfield.py is not among the
  sources). "Additionally interprets the top bit of the field as a sign bit and
  sign-extends (two's-complement) when set", "from the field's own width".
\<close>

definition BitField_extract_signed :: "BitField \<Rightarrow> int \<Rightarrow> int" where
  "BitField_extract_signed f word =
     (let unsigned = BitField_extract f word
      in if bit unsigned (width f - 1) then unsigned - 2 ^ width f else unsigned)"

text \<open>
  Modelled from the spec: \<open>BitField.insert\<close> (bitfield.py is not among the sources).
  "Masks value to the field's bit width (silently truncating ...) and returns word
  with that field's bits replaced, all other bits preserved"; the masked value is
  OR-ed into position.
\<close>

definition BitField_insert :: "BitField \<Rightarrow> int \<Rightarrow> int \<Rightarrow> int" where
  "BitField_insert f val word =
     (word AND NOT (push_bit (from_bit f) (mask (width f))))
       OR push_bit (from_bit f) (val AND mask (width f))"

section \<open>Instruction format (instruction\_set/instr\_format.py)\<close>

definition reserved :: BitField where "reserved = BitField 31 31"
definition instr_field :: BitField where "instr_field = BitField 26 30"
definition cond_field :: BitField where "cond_field = BitField 22 25"
definition reg_target_field :: BitField where "reg_target_field = BitField 18 21"
definition reg_src1_field :: BitField where "reg_src1_field = BitField 14 17"
definition reg_src2_field :: BitField where "reg_src2_field = BitField 10 13"
definition offset_field :: BitField where "offset_field = BitField 0 9"

datatype OpCode = HALT | LOAD | STORE | ADD | SUB | MUL | DIV

text \<open>\<open>op.value\<close>: the number of each member of the enumeration.\<close>

fun OpCode_value :: "OpCode \<Rightarrow> int" where
  "OpCode_value HALT = 0"
| "OpCode_value LOAD = 1"
| "OpCode_value STORE = 2"
| "OpCode_value ADD = 3"
| "OpCode_value SUB = 5"
| "OpCode_value MUL = 6"
| "OpCode_value DIV = 7"

text \<open>\<open>OpCode(n)\<close>: the member numbered \<open>n\<close>, and a \<open>ValueError\<close> when there is none.\<close>

definition OpCode_of :: "int \<Rightarrow> error + OpCode" where
  "OpCode_of n =
     (if n = 0 then Inr HALT
      else if n = 1 then Inr LOAD
      else if n = 2 then Inr STORE
      else if n = 3 then Inr ADD
      else if n = 5 then Inr SUB
      else if n = 6 then Inr MUL
      else if n = 7 then Inr DIV
      else Inl InvalidEncoding)"

text \<open>
  \<open>CondFlag\<close> is a Python \<open>Flag\<close> over the four bits M, Z, P, V: its members and
  their combinations are exactly the sixteen 4-bit masks, \<open>&\<close> and \<open>|\<close> are bitwise,
  and a flag is true in a condition when its value is not 0.
\<close>

type_synonym CondFlag = "4 word"

definition M :: CondFlag where "M = 1"
definition Z :: CondFlag where "Z = 2"
definition P :: CondFlag where "P = 4"
definition V :: CondFlag where "V = 8"
definition NEVER :: CondFlag where "NEVER = 0"
definition ALWAYS :: CondFlag where "ALWAYS = M OR Z OR P OR V"

text \<open>\<open>flag.value\<close>.\<close>

definition CondFlag_value :: "CondFlag \<Rightarrow> int" where
  "CondFlag_value c = uint c"

text \<open>
  \<open>CondFlag(n)\<close>: Python's \<open>Flag\<close> accepts the numbers \<open>-16 .. 15\<close>, reading a
  negative one as the complement mask (\<open>CondFlag(-8)\<close> is \<open>V\<close>, \<open>CondFlag(-1)\<close> is
  \<open>ALWAYS\<close>), and raises a \<open>ValueError\<close> for any other number.
\<close>

definition CondFlag_of :: "int \<Rightarrow> error + CondFlag" where
  "CondFlag_of n = (if - 16 \<le> n \<and> n \<le> 15 then Inr (word_of_int n) else Inl InvalidEncoding)"

record Instruction =
  op :: OpCode
  cond :: CondFlag
  reg_target :: int
  reg_src1 :: int
  reg_src2 :: int
  offset :: int

text \<open>\<open>Instruction.encode\<close>: the fields are inserted into the word 0 one after the other.\<close>

definition encode :: "Instruction \<Rightarrow> int" where
  "encode self =
     (let word = 0;
          word = BitField_insert instr_field (OpCode_value (op self)) word;
          word = BitField_insert cond_field (CondFlag_value (cond self)) word;
          word = BitField_insert reg_target_field (reg_target self) word;
          word = BitField_insert reg_src1_field (reg_src1 self) word;
          word = BitField_insert reg_src2_field (reg_src2 self) word;
          word = BitField_insert offset_field (offset self) word
      in word)"

text \<open>
  \<open>decode\<close>: every field is read with \<open>extract_signed\<close>. The source applies
  \<open>OpCode\<close> and \<open>CondFlag\<close> a second time to the members it has built, which
  returns them unchanged.
\<close>

definition decode :: "int \<Rightarrow> error + Instruction" where
  "decode word =
     (case OpCode_of (BitField_extract_signed instr_field word) of
        Inl e \<Rightarrow> Inl e
      | Inr opc \<Rightarrow>
     (case CondFlag_of (BitField_extract_signed cond_field word) of
        Inl e \<Rightarrow> Inl e
      | Inr cnd \<Rightarrow>
          Inr \<lparr>op = opc, cond = cnd,
               reg_target = BitField_extract_signed reg_target_field word,
               reg_src1 = BitField_extract_signed reg_src1_field word,
               reg_src2 = BitField_extract_signed reg_src2_field word,
               offset = BitField_extract_signed offset_field word\<rparr>))"

section \<open>Registers (cpu/register.py)\<close>

text \<open>
  A register object holds \<open>_value\<close>, an unbounded Python integer. The two classes differ
  in \<open>put\<close> only; \<open>ZeroRegister\<close> inherits the constructor and \<open>get\<close>.
\<close>

datatype Register = Register int | ZeroRegister int

definition Register_init :: Register where
  "Register_init = Register 0"

definition ZeroRegister_init :: Register where
  "ZeroRegister_init = ZeroRegister 0"

fun Register_get :: "Register \<Rightarrow> int" where
  "Register_get (Register v) = v"
| "Register_get (ZeroRegister v) = v"

fun Register_put :: "Register \<Rightarrow> int \<Rightarrow> Register" where
  "Register_put (Register v) val = Register val"
| "Register_put (ZeroRegister v) val = ZeroRegister v"

section \<open>Arithmetic logic unit (cpu/cpu.py)\<close>

text \<open>
  The table \<open>ALU_OPS\<close>. \<open>None\<close> is the \<open>ZeroDivisionError\<close> of \<open>x // 0\<close>; Python's
  \<open>//\<close> on integers rounds towards minus infinity, as \<open>div\<close> on \<open>int\<close> does.
\<close>

fun ALU_OPS :: "OpCode \<Rightarrow> int \<Rightarrow> int \<Rightarrow> int option" where
  "ALU_OPS ADD x y = Some (x + y)"
| "ALU_OPS SUB x y = Some (x - y)"
| "ALU_OPS MUL x y = Some (x * y)"
| "ALU_OPS DIV x y = (if y = 0 then None else Some (x div y))"
| "ALU_OPS LOAD x y = Some (x + y)"
| "ALU_OPS STORE x y = Some (x + y)"
| "ALU_OPS HALT x y = Some 0"

text \<open>\<open>ALU.exec\<close>: the \<open>except\<close> branch turns any exception of the operation into \<open>(0, V)\<close>.\<close>

definition ALU_exec :: "OpCode \<Rightarrow> int \<Rightarrow> int \<Rightarrow> int \<times> CondFlag" where
  "ALU_exec opc in1 in2 =
     (case ALU_OPS opc in1 in2 of
        None \<Rightarrow> (0, V)
      | Some op_result \<Rightarrow>
          if op_result = 0 then (op_result, Z)
          else if op_result < 0 then (op_result, M)
          else (op_result, P))"

section \<open>Memory (cpu/memory.py)\<close>

text \<open>
  The CPU reaches its memory through \<open>get\<close> and \<open>put\<close> only, so the memory is a
  parameter of the CPU model: a state of any type \<open>'m\<close> with the two operations. A read
  returns the memory state as well, since a read of a mapped input address consumes
  input from outside.
\<close>

record 'm Memory =
  Memory_get :: "'m \<Rightarrow> int \<Rightarrow> error + int \<times> 'm"
  Memory_put :: "'m \<Rightarrow> int \<Rightarrow> int \<Rightarrow> error + 'm"

text \<open>
  Modelled from the spec: the plain \<open>Memory\<close> class (memory.py is not among the sources).
  "Fixed-size addressable array of integer words, index range [0, size)";
  "out-of-range access is a fatal error".
\<close>

definition plain_get :: "int list \<Rightarrow> int \<Rightarrow> error + int \<times> int list" where
  "plain_get cells addr =
     (if 0 \<le> addr \<and> addr < int (length cells) then Inr (cells ! nat addr, cells)
      else Inl OutOfRange)"

definition plain_put :: "int list \<Rightarrow> int \<Rightarrow> int \<Rightarrow> error + int list" where
  "plain_put cells addr val =
     (if 0 \<le> addr \<and> addr < int (length cells) then Inr (cells[nat addr := val])
      else Inl OutOfRange)"

definition plain_Memory :: "int list Memory" where
  "plain_Memory = \<lparr>Memory_get = plain_get, Memory_put = plain_put\<rparr>"

section \<open>Central processing unit (cpu/cpu.py)\<close>

text \<open>
  The state of a CPU object: its memory connection, the list of its sixteen register
  objects, the condition register and the halted flag. \<open>self.pc\<close> is the object
  \<open>self.registers[15]\<close>, so the model reads and writes position 15 of the list. The
  ALU has no state. The observers of \<open>notify_all\<close> receive the decoded instruction and
  do not change the CPU, so they are not part of the state.
\<close>

record 'm CPU =
  memory :: 'm
  registers :: "Register list"
  condition :: CondFlag
  halted :: bool

definition CPU_init :: "'m \<Rightarrow> 'm CPU" where
  "CPU_init mem =
     \<lparr>memory = mem,
      registers = ZeroRegister_init # replicate 15 Register_init,
      condition = ALWAYS,
      halted = False\<rparr>"

text \<open>
  Python list indexing \<open>xs[i]\<close>: a negative index counts from the end, and an index
  outside \<open>-len .. len - 1\<close> raises \<open>IndexError\<close>. The result is the position read.
\<close>

definition list_index :: "'a list \<Rightarrow> int \<Rightarrow> error + nat" where
  "list_index xs i =
     (let n = int (length xs)
      in if 0 \<le> i \<and> i < n then Inr (nat i)
         else if - n \<le> i \<and> i < 0 then Inr (nat (i + n))
         else Inl IndexError)"

text \<open>\<open>self.pc.put(self.pc.get() + 1)\<close>.\<close>

definition advance_pc :: "'m CPU \<Rightarrow> 'm CPU" where
  "advance_pc self =
     self\<lparr>registers :=
       (registers self)[15 := Register_put (registers self ! 15)
                                 (Register_get (registers self ! 15) + 1)]\<rparr>"

text \<open>
  The third part of \<open>CPU.step\<close>, "Execute": what the step does with the decoded
  instruction.
\<close>

definition execute :: "'m Memory \<Rightarrow> 'm CPU \<Rightarrow> Instruction \<Rightarrow> error + 'm CPU" where
  "execute bus self instr =
     (if condition self AND cond instr \<noteq> 0 then
        (case list_index (registers self) (reg_src1 instr) of
           Inl e \<Rightarrow> Inl e
         | Inr i1 \<Rightarrow>
        (case list_index (registers self) (reg_src2 instr) of
           Inl e \<Rightarrow> Inl e
         | Inr i2 \<Rightarrow>
           let left_op = Register_get (registers self ! i1);
               right_op = Register_get (registers self ! i2) + offset instr;
               result = ALU_exec (op instr) left_op right_op;
               self = advance_pc self
           in
           if op instr = STORE then
             (case list_index (registers self) (reg_target instr) of
                Inl e \<Rightarrow> Inl e
              | Inr t \<Rightarrow>
             (case Memory_put bus (memory self) (fst result)
                     (Register_get (registers self ! t)) of
                Inl e \<Rightarrow> Inl e
              | Inr mem \<Rightarrow> Inr (self\<lparr>memory := mem\<rparr>)))
           else if op instr = LOAD then
             (case Memory_get bus (memory self) (fst result) of
                Inl e \<Rightarrow> Inl e
              | Inr (location_val, mem) \<Rightarrow>
             (case list_index (registers self) (reg_target instr) of
                Inl e \<Rightarrow> Inl e
              | Inr t \<Rightarrow>
                  Inr (self\<lparr>memory := mem,
                            registers := (registers self)
                              [t := Register_put (registers self ! t) location_val]\<rparr>)))
           else if op instr = HALT then
             Inr (self\<lparr>halted := True\<rparr>)
           else
             (case list_index (registers self) (reg_target instr) of
                Inl e \<Rightarrow> Inl e
              | Inr t \<Rightarrow>
                  Inr (self\<lparr>registers := (registers self)
                              [t := Register_put (registers self ! t) (fst result)],
                            condition := snd result\<rparr>))))
      else Inr (advance_pc self))"

text \<open>
  \<open>CPU.step\<close>: fetch the word at the address in the program counter, decode it, and
  execute the instruction. An exception of the fetch or of \<open>decode\<close> ends the step.
\<close>

definition step :: "'m Memory \<Rightarrow> 'm CPU \<Rightarrow> error + 'm CPU" where
  "step bus self =
     (let instr_addr = Register_get (registers self ! 15)
      in case Memory_get bus (memory self) instr_addr of
           Inl e \<Rightarrow> Inl e
         | Inr (instr_word, mem) \<Rightarrow>
        (case decode instr_word of
           Inl e \<Rightarrow> Inl e
         | Inr instr \<Rightarrow> execute bus (self\<lparr>memory := mem\<rparr>) instr))"

text \<open>
  \<open>CPU.run\<close>: clear the halted flag, put the start address into the program counter
  and step until the CPU has halted. The loop ends only when a \<open>HALT\<close> executes or a
  step raises, so the model takes fuel: \<open>None\<close> is a loop that still runs when the
  fuel is used up. \<open>single_step\<close> only waits for a key before each step.
\<close>

fun run_loop :: "'m Memory \<Rightarrow> nat \<Rightarrow> 'm CPU \<Rightarrow> (error + 'm CPU) option" where
  "run_loop bus 0 self = (if halted self then Some (Inr self) else None)"
| "run_loop bus (Suc fuel) self =
     (if halted self then Some (Inr self)
      else case step bus self of
             Inl e \<Rightarrow> Some (Inl e)
           | Inr self' \<Rightarrow> run_loop bus fuel self')"

definition run :: "'m Memory \<Rightarrow> nat \<Rightarrow> 'm CPU \<Rightarrow> int \<Rightarrow> (error + 'm CPU) option" where
  "run bus fuel self from_addr =
     run_loop bus fuel
       (self\<lparr>halted := False,
             registers := (registers self)[15 := Register_put (registers self ! 15) from_addr]\<rparr>)"

text \<open>
  The state a constructed CPU keeps: sixteen register objects, the first a
  \<open>ZeroRegister\<close> holding 0, the others plain registers.
\<close>

fun is_plain :: "Register \<Rightarrow> bool" where
  "is_plain (Register v) = True"
| "is_plain (ZeroRegister v) = False"

definition CPU_inv :: "'m CPU \<Rightarrow> bool" where
  "CPU_inv self \<longleftrightarrow>
     length (registers self) = 16 \<and>
     hd (registers self) = ZeroRegister 0 \<and>
     list_all is_plain (tl (registers self))"

section \<open>The decoding the specification describes\<close>



section \<open>Properties of the bit fields\<close>


lemma extract_eq_take_bit:
  "BitField_extract f w = take_bit (width f) (drop_bit (from_bit f) w)"
  by (simp add: BitField_extract_def take_bit_eq_mask)

lemma extract_signed_eq_signed_take_bit:
  "BitField_extract_signed f w = signed_take_bit (width f - 1) (drop_bit (from_bit f) w)"
  by (simp add: BitField_extract_signed_def extract_eq_take_bit width_def Let_def
      signed_take_bit_eq_take_bit_minus bit_take_bit_iff)

lemma extract_bounds:
  "0 \<le> BitField_extract f w \<and> BitField_extract f w < 2 ^ width f"
  by (simp add: extract_eq_take_bit)

lemma extract_signed_bounds:
  "- (2 ^ (width f - 1)) \<le> BitField_extract_signed f w \<and>
   BitField_extract_signed f w < 2 ^ (width f - 1)"
  by (simp add: extract_signed_eq_signed_take_bit)

lemma extract_signed_mod:
  "BitField_extract_signed f w mod 2 ^ width f = BitField_extract f w"
proof -
  have "take_bit (width f) (signed_take_bit (width f - 1) (drop_bit (from_bit f) w))
        = take_bit (width f) (drop_bit (from_bit f) w)"
    by (rule take_bit_signed_take_bit) (simp add: width_def)
  then show ?thesis
    by (simp add: extract_signed_eq_signed_take_bit extract_eq_take_bit take_bit_eq_mod)
qed

lemma list_index_16:
  assumes "length xs = 16" and "- 16 \<le> r" and "r < 16"
  shows "list_index xs r = Inr (nat (r mod 16))"
proof (cases "0 \<le> r")
  case True
  with assms show ?thesis by (simp add: list_index_def)
next
  case False
  have "r mod 16 = (r + 16) mod 16" by simp
  also have "\<dots> = r + 16"
    using False assms by (intro mod_pos_pos_trivial) simp_all
  finally have "r mod 16 = r + 16" .
  with False assms show ?thesis by (simp add: list_index_def)
qed

lemma width_fields [simp]:
  "width instr_field = 5" "width cond_field = 4" "width reg_target_field = 4"
  "width reg_src1_field = 4" "width reg_src2_field = 4" "width offset_field = 10"
  by (simp_all add: width_def instr_field_def cond_field_def reg_target_field_def
      reg_src1_field_def reg_src2_field_def offset_field_def)

lemma list_index_register_field:
  assumes "length xs = 16" and "width f = 4"
  shows "list_index xs (BitField_extract_signed f w) = Inr (nat (BitField_extract f w))"
proof -
  have "- 16 \<le> BitField_extract_signed f w" "BitField_extract_signed f w < 16"
    using extract_signed_bounds [of f w] assms(2) by simp_all
  moreover have "BitField_extract_signed f w mod 16 = BitField_extract f w"
    using extract_signed_mod [of f w] assms(2) by simp
  ultimately show ?thesis
    using assms(1) by (simp add: list_index_16)
qed

lemma list_index_unsigned_field:
  assumes "length xs = 16" and "width f = 4"
  shows "list_index xs (BitField_extract f w) = Inr (nat (BitField_extract f w))"
  using extract_bounds [of f w] assms by (simp add: list_index_def)

subsection \<open>Register file\<close>

lemma inv_regs:
  assumes "CPU_inv self"
  shows "length (registers self) = 16"
    and "registers self ! 0 = ZeroRegister 0"
    and "\<And>i. 0 < i \<Longrightarrow> i < 16 \<Longrightarrow> is_plain (registers self ! i)"
proof -
  from assms obtain x xs where rs: "registers self = x # xs"
    by (cases "registers self") (auto simp: CPU_inv_def)
  from assms rs show "length (registers self) = 16" by (simp add: CPU_inv_def)
  from assms rs show "registers self ! 0 = ZeroRegister 0" by (simp add: CPU_inv_def)
  fix i :: nat assume "0 < i" "i < 16"
  with assms rs show "is_plain (registers self ! i)"
    by (cases i) (auto simp: CPU_inv_def list_all_length)
qed

lemma inv_pc:
  assumes "CPU_inv self"
  shows "registers self ! 15 = Register (Register_get (registers self ! 15))"
  using inv_regs(3) [OF assms, of 15] by (cases "registers self ! 15") simp_all

lemma regs_put_inv:
  assumes "length rs = 16" and "hd rs = ZeroRegister 0" and "list_all is_plain (tl rs)"
  shows "length (rs[t := Register_put (rs ! t) v]) = 16 \<and>
         hd (rs[t := Register_put (rs ! t) v]) = ZeroRegister 0 \<and>
         list_all is_plain (tl (rs[t := Register_put (rs ! t) v]))"
proof -
  from assms obtain x xs where rs: "rs = x # xs" by (cases rs) auto
  show ?thesis
  proof (cases t)
    case 0
    with assms rs show ?thesis by simp
  next
    case (Suc k)
    have plain: "is_plain (Register_put r v)" if "is_plain r" for r
      using that by (cases r) simp_all
    from assms rs have all: "list_all is_plain xs" by simp
    have "list_all is_plain (xs[k := Register_put (xs ! k) v])"
    proof (cases "k < length xs")
      case True
      with all plain show ?thesis
        by (auto simp: list_all_length nth_list_update)
    next
      case False
      then have "xs[k := Register_put (xs ! k) v] = xs"
        by (intro list_update_beyond) simp
      with all show ?thesis by simp
    qed
    with assms rs Suc show ?thesis by simp
  qed
qed

lemma CPU_inv_put:
  assumes "CPU_inv self"
  shows "CPU_inv (self\<lparr>registers := (registers self)[t := Register_put (registers self ! t) v]\<rparr>)"
  using regs_put_inv [of "registers self" t v] assms by (simp add: CPU_inv_def)

lemma CPU_inv_advance_pc: "CPU_inv self \<Longrightarrow> CPU_inv (advance_pc self)"
  unfolding advance_pc_def by (rule CPU_inv_put)

lemma CPU_inv_fields [simp]:
  "CPU_inv (self\<lparr>memory := m\<rparr>) = CPU_inv self"
  "CPU_inv (self\<lparr>halted := h\<rparr>) = CPU_inv self"
  "CPU_inv (self\<lparr>condition := c\<rparr>) = CPU_inv self"
  by (simp_all add: CPU_inv_def)

lemma CPU_inv_init: "CPU_inv (CPU_init mem)"
  by (simp add: CPU_inv_def CPU_init_def ZeroRegister_init_def Register_init_def
      numeral_eq_Suc)

lemma advance_pc_simps [simp]:
  "memory (advance_pc self) = memory self"
  "condition (advance_pc self) = condition self"
  "halted (advance_pc self) = halted self"
  "length (registers (advance_pc self)) = length (registers self)"
  by (simp_all add: advance_pc_def)

lemma advance_pc_inv:
  assumes "CPU_inv self"
  shows "advance_pc self =
         self\<lparr>registers := (registers self)[15 := Register (Register_get (registers self ! 15) + 1)]\<rparr>"
proof -
  have "Register_put (registers self ! 15) v = Register v" for v
    using inv_pc [OF assms] by (metis Register_put.simps(1))
  then show ?thesis by (simp add: advance_pc_def)
qed


subsection \<open>Decoding\<close>

lemma OpCode_of_signed:
  "OpCode_of (BitField_extract_signed instr_field w) = OpCode_of (BitField_extract instr_field w)"
proof -
  let ?s = "BitField_extract_signed instr_field w" and ?u = "BitField_extract instr_field w"
  have s: "- 16 \<le> ?s" "?s < 16" using extract_signed_bounds [of instr_field w] by simp_all
  have u: "0 \<le> ?u" "?u < 32" using extract_bounds [of instr_field w] by simp_all
  have m: "?s mod 32 = ?u" using extract_signed_mod [of instr_field w] by simp
  show ?thesis
  proof (cases "0 \<le> ?s")
    case True
    with s m have "?s = ?u" by simp
    then show ?thesis by simp
  next
    case False
    have "?s mod 32 = (?s + 32) mod 32" by simp
    also have "\<dots> = ?s + 32" using False s by (intro mod_pos_pos_trivial) simp_all
    finally have "?u = ?s + 32" using m by simp
    with False s show ?thesis by (simp add: OpCode_of_def)
  qed
qed

lemma CondFlag_of_signed:
  "CondFlag_of (BitField_extract_signed cond_field w) = CondFlag_of (BitField_extract cond_field w)"
proof -
  let ?s = "BitField_extract_signed cond_field w" and ?u = "BitField_extract cond_field w"
  have s: "- 8 \<le> ?s" "?s < 8" using extract_signed_bounds [of cond_field w] by simp_all
  have u: "0 \<le> ?u" "?u < 16" using extract_bounds [of cond_field w] by simp_all
  have m: "?s mod 16 = ?u" using extract_signed_mod [of cond_field w] by simp
  have weq: "(word_of_int ?s :: 4 word) = word_of_int ?u"
    using m by (simp add: word_of_int_eq_iff take_bit_eq_mod)
  have "CondFlag_of ?s = Inr (word_of_int ?s)"
    using s by (simp add: CondFlag_of_def)
  moreover have "CondFlag_of ?u = Inr (word_of_int ?u)"
    using u by (simp add: CondFlag_of_def)
  ultimately show ?thesis using weq by simp
qed

lemma CondFlag_of_unsigned_field:
  "CondFlag_of (BitField_extract cond_field w)
   = Inr (word_of_int (BitField_extract cond_field w))"
  using extract_bounds [of cond_field w] by (simp add: CondFlag_of_def)

lemma CondFlag_of_field:
  "CondFlag_of (BitField_extract_signed cond_field w)
   = Inr (word_of_int (BitField_extract cond_field w))"
  by (simp add: CondFlag_of_signed CondFlag_of_unsigned_field)

lemma decode_Inr:
  assumes "decode w = Inr instr"
  shows "OpCode_of (BitField_extract instr_field w) = Inr (op instr)"
    and "cond instr = word_of_int (BitField_extract cond_field w)"
    and "reg_target instr = BitField_extract_signed reg_target_field w"
    and "reg_src1 instr = BitField_extract_signed reg_src1_field w"
    and "reg_src2 instr = BitField_extract_signed reg_src2_field w"
    and "offset instr = BitField_extract_signed offset_field w"
  using assms
  by (auto simp: decode_def OpCode_of_signed CondFlag_of_field split: sum.splits)



lemma list_index_registers:
  assumes "length rs = 16"
  shows "list_index rs (BitField_extract_signed reg_target_field w)
           = Inr (nat (BitField_extract reg_target_field w))"
    and "list_index rs (BitField_extract_signed reg_src1_field w)
           = Inr (nat (BitField_extract reg_src1_field w))"
    and "list_index rs (BitField_extract_signed reg_src2_field w)
           = Inr (nat (BitField_extract reg_src2_field w))"
    and "list_index rs (BitField_extract reg_target_field w)
           = Inr (nat (BitField_extract reg_target_field w))"
    and "list_index rs (BitField_extract reg_src1_field w)
           = Inr (nat (BitField_extract reg_src1_field w))"
    and "list_index rs (BitField_extract reg_src2_field w)
           = Inr (nat (BitField_extract reg_src2_field w))"
  using assms by (simp_all add: list_index_register_field list_index_unsigned_field)


subsection \<open>One step\<close>

lemma step_fetched:
  assumes "Memory_get bus (memory self) (Register_get (registers self ! 15)) = Inr (w, mem)"
    and "decode w = Inr instr"
  shows "step bus self = execute bus (self\<lparr>memory := mem\<rparr>) instr"
  using assms by (simp add: step_def)

lemma list_index_advance_pc [simp]:
  "list_index (registers (advance_pc self)) r = list_index (registers self) r"
  by (simp add: list_index_def)

lemma execute_skip:
  assumes "condition self AND cond instr = 0"
  shows "execute bus self instr = Inr (advance_pc self)"
  using assms by (simp add: execute_def)

lemma execute_arith:
  assumes "length (registers self) = 16"
    and "decode w = Inr instr"
    and "condition self AND cond instr \<noteq> 0"
    and "op instr \<in> {ADD, SUB, MUL, DIV}"
  shows "execute bus self instr =
     (let result = ALU_exec (op instr)
            (Register_get (registers self ! nat (BitField_extract reg_src1_field w)))
            (Register_get (registers self ! nat (BitField_extract reg_src2_field w))
               + offset instr);
          t = nat (BitField_extract reg_target_field w);
          regs = registers (advance_pc self)
      in Inr ((advance_pc self)\<lparr>registers := regs[t := Register_put (regs ! t) (fst result)],
                                condition := snd result\<rparr>))"
  using assms
  by (auto simp: execute_def decode_Inr [OF assms(2)] list_index_registers Let_def)

lemma execute_HALT:
  assumes "length (registers self) = 16"
    and "decode w = Inr instr"
    and "condition self AND cond instr \<noteq> 0"
    and "op instr = HALT"
  shows "execute bus self instr = Inr ((advance_pc self)\<lparr>halted := True\<rparr>)"
  using assms
  by (simp add: execute_def decode_Inr [OF assms(2)] list_index_registers Let_def)

lemma execute_STORE:
  assumes "length (registers self) = 16"
    and "decode w = Inr instr"
    and "condition self AND cond instr \<noteq> 0"
    and "op instr = STORE"
  shows "execute bus self instr =
     (let addr = fst (ALU_exec STORE
            (Register_get (registers self ! nat (BitField_extract reg_src1_field w)))
            (Register_get (registers self ! nat (BitField_extract reg_src2_field w))
               + offset instr));
          t = nat (BitField_extract reg_target_field w)
      in case Memory_put bus (memory self) addr
                (Register_get (registers (advance_pc self) ! t)) of
           Inl e \<Rightarrow> Inl e
         | Inr mem \<Rightarrow> Inr ((advance_pc self)\<lparr>memory := mem\<rparr>))"
  using assms
  by (simp add: execute_def decode_Inr [OF assms(2)] list_index_registers Let_def)

lemma execute_LOAD:
  assumes "length (registers self) = 16"
    and "decode w = Inr instr"
    and "condition self AND cond instr \<noteq> 0"
    and "op instr = LOAD"
  shows "execute bus self instr =
     (let addr = fst (ALU_exec LOAD
            (Register_get (registers self ! nat (BitField_extract reg_src1_field w)))
            (Register_get (registers self ! nat (BitField_extract reg_src2_field w))
               + offset instr));
          t = nat (BitField_extract reg_target_field w);
          regs = registers (advance_pc self)
      in case Memory_get bus (memory self) addr of
           Inl e \<Rightarrow> Inl e
         | Inr (location_val, mem) \<Rightarrow>
             Inr ((advance_pc self)\<lparr>memory := mem,
                    registers := regs[t := Register_put (regs ! t) location_val]\<rparr>))"
  using assms
  by (simp add: execute_def decode_Inr [OF assms(2)] list_index_registers Let_def
      split: sum.splits prod.splits)

lemma op_cases:
  "opc = STORE \<or> opc = LOAD \<or> opc = HALT \<or> opc \<in> {ADD, SUB, MUL, DIV}"
  by (cases opc) simp_all

subsection \<open>Encoding, then decoding\<close>

text \<open>
  A field that is inserted and then extracted gives the inserted value cut to the width
  of the field, and an insertion into one field leaves every field disjoint from it as
  it was. So \<open>decode\<close> returns the opcode, the condition and (within -512 to 511) the
  offset of an encoded instruction, and the register numbers sign-extended from four
  bits: 0 to 7 unchanged, 8 to 15 as -8 to -1.
\<close>


lemma OpCode_of_value: "OpCode_of (OpCode_value opc) = Inr opc"
  by (cases opc) (simp_all add: OpCode_of_def)

lemma extract_insert_same:
  "BitField_extract f (BitField_insert f v w) = take_bit (width f) v"
  unfolding BitField_extract_def BitField_insert_def
  by (rule bit_eqI) (auto simp: bit_simps)

lemma extract_insert_other:
  assumes "from_bit f \<le> to_bit f" and "from_bit g \<le> to_bit g"
    and "to_bit g < from_bit f \<or> to_bit f < from_bit g"
  shows "BitField_extract f (BitField_insert g v w) = BitField_extract f w"
  unfolding BitField_extract_def BitField_insert_def
  using assms by (intro bit_eqI) (auto simp: bit_simps width_def)

lemma extract_signed_of_extract:
  "BitField_extract_signed f w = signed_take_bit (width f - 1) (BitField_extract f w)"
  by (simp add: extract_signed_eq_signed_take_bit extract_eq_take_bit
      signed_take_bit_take_bit width_def)


lemmas field_defs = instr_field_def cond_field_def reg_target_field_def
  reg_src1_field_def reg_src2_field_def offset_field_def

lemma extract_encode:
  "BitField_extract instr_field (encode i) = take_bit 5 (OpCode_value (op i))"
  "BitField_extract cond_field (encode i) = take_bit 4 (CondFlag_value (cond i))"
  "BitField_extract reg_target_field (encode i) = take_bit 4 (reg_target i)"
  "BitField_extract reg_src1_field (encode i) = take_bit 4 (reg_src1 i)"
  "BitField_extract reg_src2_field (encode i) = take_bit 4 (reg_src2 i)"
  "BitField_extract offset_field (encode i) = take_bit 10 (offset i)"
  by (simp_all add: encode_def Let_def extract_insert_same extract_insert_other
      field_defs width_def)

lemma take_bit_OpCode_value: "take_bit 5 (OpCode_value opc) = OpCode_value opc"
  by (cases opc) simp_all

lemma decode_encode:
  "decode (encode i) =
     Inr \<lparr>op = op i, cond = cond i,
          reg_target = signed_take_bit 3 (reg_target i),
          reg_src1 = signed_take_bit 3 (reg_src1 i),
          reg_src2 = signed_take_bit 3 (reg_src2 i),
          offset = signed_take_bit 9 (offset i)\<rparr>"
proof -
  have o: "OpCode_of (BitField_extract_signed instr_field (encode i)) = Inr (op i)"
    by (simp add: OpCode_of_signed extract_encode take_bit_OpCode_value OpCode_of_value)
  have "take_bit 4 (uint (cond i)) = uint (cond i)"
    using uint_bounded [of "cond i"] by (simp add: take_bit_int_eq_self)
  then have "(word_of_int (take_bit 4 (uint (cond i))) :: 4 word) = cond i"
    by simp
  then have c: "CondFlag_of (BitField_extract_signed cond_field (encode i)) = Inr (cond i)"
    by (simp add: CondFlag_of_field extract_encode CondFlag_value_def)
  show ?thesis
    unfolding decode_def o c
    by (simp add: extract_signed_of_extract extract_encode signed_take_bit_take_bit)
qed

lemma signed_take_bit_3_cases:
  "0 \<le> r \<Longrightarrow> r \<le> 15 \<Longrightarrow> signed_take_bit 3 r = (if r < 8 then r else r - 16)" for r :: int
proof -
  assume r: "0 \<le> r" "r \<le> 15"
  have "signed_take_bit 3 r = take_bit 4 (r + 8) - 8"
    by (simp add: signed_take_bit_eq_take_bit_shift)
  also have "take_bit 4 (r + 8) = (r + 8) mod 16" by (simp add: take_bit_eq_mod)
  also have "(r + 8) mod 16 = (if r < 8 then r + 8 else r - 8)"
    using r by presburger
  finally show ?thesis by simp
qed

lemma decode_encode_legal:
  assumes "0 \<le> reg_target i" "reg_target i \<le> 15"
    and "0 \<le> reg_src1 i" "reg_src1 i \<le> 15"
    and "0 \<le> reg_src2 i" "reg_src2 i \<le> 15"
    and "- 512 \<le> offset i" "offset i \<le> 511"
  shows "decode (encode i) =
     Inr (i\<lparr>reg_target := if reg_target i < 8 then reg_target i else reg_target i - 16,
             reg_src1 := if reg_src1 i < 8 then reg_src1 i else reg_src1 i - 16,
             reg_src2 := if reg_src2 i < 8 then reg_src2 i else reg_src2 i - 16\<rparr>)"
proof -
  have "signed_take_bit 9 (offset i) = offset i"
    using assms(7,8) by (simp add: signed_take_bit_int_eq_self)
  then show ?thesis
    using assms by (simp add: decode_encode signed_take_bit_3_cases)
qed

section \<open>Properties of the CPU\<close>


lemma execute_inv:
  assumes "CPU_inv self" and "execute bus self instr = Inr self'"
  shows "CPU_inv self'"
proof -
  have a: "CPU_inv (advance_pc self)" using assms(1) by (rule CPU_inv_advance_pc)
  have p: "CPU_inv ((advance_pc self)\<lparr>registers := (registers (advance_pc self))
             [t := Register_put (registers (advance_pc self) ! t) v]\<rparr>)" for t v
    using a by (rule CPU_inv_put)
  have q: "length ((registers (advance_pc self))
             [t := Register_put (registers (advance_pc self) ! t) v]) = 16 \<and>
       hd ((registers (advance_pc self))
             [t := Register_put (registers (advance_pc self) ! t) v]) = ZeroRegister 0 \<and>
       list_all is_plain (tl ((registers (advance_pc self))
             [t := Register_put (registers (advance_pc self) ! t) v]))" for t v
    using p [of t v] by (simp add: CPU_inv_def)
  from assms(2) show ?thesis
    using a q
    by (auto simp: execute_def Let_def CPU_inv_def split: if_splits sum.splits prod.splits)
qed

lemma step_inv:
  assumes "CPU_inv self" and "step bus self = Inr self'"
  shows "CPU_inv self'"
proof -
  from assms(2) obtain w mem instr where
    "execute bus (self\<lparr>memory := mem\<rparr>) instr = Inr self'"
    by (auto simp: step_def Let_def split: sum.splits prod.splits)
  moreover have "CPU_inv (self\<lparr>memory := mem\<rparr>)" using assms(1) by simp
  ultimately show ?thesis using execute_inv by blast
qed

lemma range_OpCode_value: "range OpCode_value = {0, 1, 2, 3, 5, 6, 7}"
  (is "?L = ?R")
proof
  show "?L \<subseteq> ?R"
  proof
    fix x assume "x \<in> ?L"
    then obtain opc where "x = OpCode_value opc" by auto
    then show "x \<in> ?R" by (cases opc) simp_all
  qed
  show "?R \<subseteq> ?L"
    using rangeI [of OpCode_value HALT] rangeI [of OpCode_value LOAD]
      rangeI [of OpCode_value STORE] rangeI [of OpCode_value ADD]
      rangeI [of OpCode_value SUB] rangeI [of OpCode_value MUL]
      rangeI [of OpCode_value DIV]
    by simp
qed

lemma OpCode_of_illegal:
  "n \<notin> range OpCode_value \<Longrightarrow> OpCode_of n = Inl InvalidEncoding"
  by (simp add: range_OpCode_value OpCode_of_def)

lemma OpCode_of_Inl_iff:
  "(\<exists>e. OpCode_of n = Inl e) \<longleftrightarrow> n \<notin> range OpCode_value"
  by (simp add: range_OpCode_value OpCode_of_def)

lemma decode_fails_iff:
  "(\<exists>e. decode w = Inl e) \<longleftrightarrow> BitField_extract instr_field w \<notin> range OpCode_value"
proof -
  have "(\<exists>e. decode w = Inl e) \<longleftrightarrow> (\<exists>e. OpCode_of (BitField_extract instr_field w) = Inl e)"
    by (auto simp: decode_def OpCode_of_signed CondFlag_of_field split: sum.splits)
  then show ?thesis by (simp only: OpCode_of_Inl_iff)
qed

text \<open>
  Claim C5. \<open>DIV\<close> is division rounding towards minus infinity: for a divisor other
  than 0 the ALU returns the floor of the real quotient, with the flag of its sign;
  in particular \<open>DIV\<close> of 12 and -3 gives -4 with \<open>M\<close>.
\<close>
theorem ALU_DIV_is_floor_division:
  "(b \<noteq> 0 \<longrightarrow>
      ALU_exec DIV a b =
        (\<lfloor>real_of_int a / real_of_int b\<rfloor>,
         if \<lfloor>real_of_int a / real_of_int b\<rfloor> = 0 then Z
         else if \<lfloor>real_of_int a / real_of_int b\<rfloor> < 0 then M else P))
   \<and> ALU_exec DIV 12 (- 3) = (- 4, M)"
  by (simp add: ALU_exec_def floor_divide_of_int_eq)

theorem ALU_DIV_is_floor_division_witness:
  "(2::int) \<noteq> 0 \<and> ALU_exec DIV (- 7) 2 = (- 4, M)"
  using ALU_DIV_is_floor_division [of 2 "- 7"] by simp

text \<open>
  Claim C9. Decoding a word whose opcode field holds a number that is no member of
  \<open>OpCode\<close> (4, the gap, or 8 to 31) fails with \<open>InvalidEncoding\<close> and returns no
  instruction. Every value of the 4-bit condition field is a combination of the four
  flags (\<open>CondFlag_of_field\<close>), so the opcode is the only field that can be illegal
  (\<open>decode_fails_iff\<close>).
\<close>
theorem decode_illegal_opcode:
  "BitField_extract instr_field w \<notin> range OpCode_value \<Longrightarrow> decode w = Inl InvalidEncoding"
  by (simp add: decode_def OpCode_of_signed OpCode_of_illegal)

theorem decode_illegal_opcode_witness:
  "BitField_extract instr_field 268435456 = 4 \<and> 4 \<notin> range OpCode_value \<and>
   decode 268435456 = Inl InvalidEncoding"
proof -
  have f: "BitField_extract instr_field 268435456 = 4" by code_simp
  have n: "(4::int) \<notin> range OpCode_value" by (simp add: range_OpCode_value)
  from f n have "BitField_extract instr_field 268435456 \<notin> range OpCode_value" by simp
  from decode_illegal_opcode [OF this] f n show ?thesis by simp
qed

text \<open>
  Claim C1, evaluated at a legal instruction. The instruction \<open>ADD/P r15,r0,r15[-2]\<close>
  has every field in its legal range, and decoding its encoding gives the register
  numbers -1 where the instruction has 15: the round trip does not return it. By
  \<open>decode_encode_legal\<close> the same happens for every register number from 8 to 15, and
  for no other field.
\<close>
theorem round_trip_fails_for_pc_register:
  "decode (encode \<lparr>op = ADD, cond = P, reg_target = 15, reg_src1 = 0, reg_src2 = 15,
                   offset = - 2\<rparr>)
   = Inr \<lparr>op = ADD, cond = P, reg_target = - 1, reg_src1 = 0, reg_src2 = - 1,
          offset = - 2\<rparr>"
  by code_simp

text \<open>
  Claim C6, evaluated at a word. The target and second source fields of the word
  268188677 (\<open>ADD r15,r0,r15[5]\<close>) hold 15, and \<open>decode\<close> returns the register number
  -1 for both: the register fields are read signed, and a decoded register number can
  lie outside 0 to 15.
\<close>
theorem decode_register_number_negative:
  "BitField_extract reg_target_field 268188677 = 15 \<and>
   decode 268188677
   = Inr \<lparr>op = ADD, cond = ALWAYS, reg_target = - 1, reg_src1 = 0, reg_src2 = - 1,
          offset = 5\<rparr>"
  by code_simp


lemma ZeroRegister_puts: "foldl Register_put (ZeroRegister v) vals = ZeroRegister v"
  by (induction vals) simp_all

lemma run_loop_inv:
  "CPU_inv self \<Longrightarrow> run_loop bus fuel self = Some (Inr self') \<Longrightarrow> CPU_inv self'"
proof (induction fuel arbitrary: self)
  case 0
  then show ?case by (simp split: if_splits)
next
  case (Suc fuel)
  show ?case
  proof (cases "halted self")
    case True
    with Suc.prems show ?thesis by simp
  next
    case False
    with Suc.prems obtain s1 where s1: "step bus self = Inr s1"
      and r: "run_loop bus fuel s1 = Some (Inr self')"
      by (auto split: sum.splits)
    from Suc.prems(1) s1 have "CPU_inv s1" by (rule step_inv)
    then show ?thesis using r by (rule Suc.IH)
  qed
qed

lemma run_inv:
  assumes "CPU_inv self" and "run bus fuel self from_addr = Some (Inr self')"
  shows "CPU_inv self'"
proof -
  have "CPU_inv (self\<lparr>registers :=
          (registers self)[15 := Register_put (registers self ! 15) from_addr]\<rparr>)"
    using assms(1) by (rule CPU_inv_put)
  then have "CPU_inv (self\<lparr>halted := False, registers :=
          (registers self)[15 := Register_put (registers self ! 15) from_addr]\<rparr>)"
    by (simp add: CPU_inv_def)
  then show ?thesis using assms(2) run_loop_inv unfolding run_def by blast
qed

lemma inv_reg0: "CPU_inv self \<Longrightarrow> Register_get (registers self ! 0) = 0"
  using inv_regs(2) [of self] by simp

text \<open>
  Claim C8. After any sequence of \<open>put\<close>s with any values a \<open>ZeroRegister\<close> reads 0. A
  constructed CPU has it as register 0, every step that ends normally keeps it there,
  whatever register the instruction targets, and so does every run: register 0 of the
  CPU reads 0 afterwards.
\<close>
theorem zero_register_invariant:
  "Register_get (foldl Register_put ZeroRegister_init vals) = 0 \<and>
   CPU_inv (CPU_init mem) \<and>
   (CPU_inv self \<longrightarrow> Register_get (registers self ! 0) = 0) \<and>
   (CPU_inv self \<and> step bus self = Inr self' \<longrightarrow>
      CPU_inv self' \<and> Register_get (registers self' ! 0) = 0) \<and>
   (CPU_inv self \<and> run bus fuel self from_addr = Some (Inr self'') \<longrightarrow>
      CPU_inv self'' \<and> Register_get (registers self'' ! 0) = 0)"
proof -
  have "Register_get (foldl Register_put ZeroRegister_init vals) = 0"
    by (simp add: ZeroRegister_init_def ZeroRegister_puts)
  moreover have "CPU_inv (CPU_init mem)" by (rule CPU_inv_init)
  moreover have "CPU_inv self' \<and> Register_get (registers self' ! 0) = 0"
    if "CPU_inv self" "step bus self = Inr self'"
    using step_inv [OF that] by (simp add: inv_reg0)
  moreover have "CPU_inv self'' \<and> Register_get (registers self'' ! 0) = 0"
    if "CPU_inv self" "run bus fuel self from_addr = Some (Inr self'')"
    using run_inv [OF that] by (simp add: inv_reg0)
  ultimately show ?thesis using inv_reg0 [of self] by blast
qed

lemma step_add_to_r0:
  "step plain_Memory (CPU_init [264241159])
   = Inr \<lparr>memory = [264241159],
          registers = [ZeroRegister 0, Register 0, Register 0, Register 0, Register 0,
            Register 0, Register 0, Register 0, Register 0, Register 0, Register 0,
            Register 0, Register 0, Register 0, Register 0, Register 1],
          condition = P, halted = False\<rparr>"
  by code_simp

theorem zero_register_invariant_witness:
  "CPU_inv (CPU_init [264241159]) \<and>
   (\<exists>self'. step plain_Memory (CPU_init [264241159]) = Inr self' \<and>
      CPU_inv self' \<and> Register_get (registers self' ! 0) = 0)"
proof -
  let ?s = "CPU_init [264241159 :: int]"
  obtain self' where st: "step plain_Memory ?s = Inr self'"
    using step_add_to_r0 by blast
  have inv: "CPU_inv ?s" by (rule CPU_inv_init)
  from zero_register_invariant [of "[]" "[264241159]" ?s plain_Memory self' 0 0 ?s] inv st
  show ?thesis by blast
qed




lemma ALWAYS_value: "ALWAYS = 15"
  by (simp add: ALWAYS_def M_def Z_def P_def V_def)

lemma CPU_init_fetch:
  "0 \<le> a \<Longrightarrow> a < int (length cells) \<Longrightarrow>
   Memory_get plain_Memory (memory ((CPU_init cells)\<lparr>registers := rs\<rparr>)) a
     = Inr (cells ! nat a, cells)"
  by (simp add: plain_Memory_def plain_get_def CPU_init_def)

lemma CPU_init_pc: "Register_get (registers (CPU_init mem) ! 15) = 0"
  by (simp add: CPU_init_def Register_init_def numeral_eq_Suc)

lemma CPU_init_fetch0:
  "Memory_get plain_Memory (memory (CPU_init (c # cells)))
     (Register_get (registers (CPU_init (c # cells)) ! 15)) = Inr (c, c # cells)"
  by (simp add: CPU_init_pc) (simp add: plain_Memory_def plain_get_def CPU_init_def)


text \<open>
  Claim C3. When the condition register and the predicate of the fetched instruction have
  no flag in common, and so whenever the predicate is \<open>NEVER\<close>, the step only advances the
  program counter by 1: the memory is as the instruction fetch left it, every other
  register, the condition register and the halted flag are unchanged.
\<close>
theorem predicate_not_satisfied_only_advances_pc:
  assumes "CPU_inv self"
    and "Memory_get bus (memory self) (Register_get (registers self ! 15)) = Inr (w, mem)"
    and "decode w = Inr instr"
    and "condition self AND cond instr = 0 \<or> cond instr = NEVER"
  shows "step bus self =
     Inr (self\<lparr>memory := mem,
               registers := (registers self)
                 [15 := Register (Register_get (registers self ! 15) + 1)]\<rparr>)"
proof -
  let ?s = "self\<lparr>memory := mem\<rparr>"
  have inv: "CPU_inv ?s" using assms(1) by simp
  have "condition ?s AND cond instr = 0" using assms(4) by (auto simp: NEVER_def)
  then have "execute bus ?s instr = Inr (advance_pc ?s)" by (rule execute_skip)
  then show ?thesis
    using step_fetched [OF assms(2,3)] by (simp add: advance_pc_inv [OF inv])
qed

theorem predicate_not_satisfied_only_advances_pc_witness:
  "CPU_inv (CPU_init [205274117 :: int, 0]) \<and>
   decode 205274117 = Inr \<lparr>op = ADD, cond = NEVER, reg_target = - 1, reg_src1 = 0,
                              reg_src2 = - 1, offset = 5\<rparr> \<and>
   step plain_Memory (CPU_init [205274117, 0])
     = Inr ((CPU_init [205274117, 0])\<lparr>registers :=
              (registers (CPU_init [205274117 :: int, 0]))[15 := Register 1]\<rparr>)"
proof -
  let ?s = "CPU_init [205274117 :: int, 0]"
  let ?i = "\<lparr>op = ADD, cond = NEVER, reg_target = - 1, reg_src1 = 0,
             reg_src2 = - 1, offset = 5\<rparr>"
  have inv: "CPU_inv ?s" by (rule CPU_inv_init)
  have fetch: "Memory_get plain_Memory (memory ?s) (Register_get (registers ?s ! 15))
                 = Inr (205274117, [205274117, 0])"
    by (rule CPU_init_fetch0)
  have dec: "decode 205274117 = Inr ?i" by code_simp
  have pred: "condition ?s AND cond ?i = 0 \<or> cond ?i = NEVER" by simp
  have m: "?s\<lparr>memory := [205274117, 0]\<rparr> = ?s" by (simp add: CPU_init_def)
  from predicate_not_satisfied_only_advances_pc [OF inv fetch dec pred]
  show ?thesis
    using inv dec by (simp add: CPU_init_pc) (simp add: CPU_init_def)
qed


text \<open>
  Claim C4. For every integer \<open>n\<close> the ALU applied to \<open>DIV\<close>, \<open>n\<close> and 0 returns the
  result 0 with the flag \<open>V\<close>: the division fault is turned into data inside the ALU.
  Execution continues: a step that executes a \<open>DIV\<close> whose right operand is 0 ends
  normally, with \<open>V\<close> in the condition register and the halted flag as it was.
\<close>
theorem ALU_division_by_zero_is_V:
  "ALU_exec DIV n 0 = (0, V) \<and>
   (CPU_inv self \<and>
    Memory_get bus (memory self) (Register_get (registers self ! 15)) = Inr (w, mem) \<and>
    decode w = Inr instr \<and> condition self AND cond instr \<noteq> 0 \<and> op instr = DIV \<and>
    Register_get (registers self ! nat (BitField_extract reg_src2_field w)) + offset instr = 0
    \<longrightarrow> (\<exists>self'. step bus self = Inr self' \<and> condition self' = V \<and>
           halted self' = halted self))"
proof -
  have alu: "ALU_exec DIV k 0 = (0, V)" for k by (simp add: ALU_exec_def)
  have "\<exists>self'. step bus self = Inr self' \<and> condition self' = V \<and> halted self' = halted self"
    if inv: "CPU_inv self"
      and fetch: "Memory_get bus (memory self) (Register_get (registers self ! 15)) = Inr (w, mem)"
      and dec: "decode w = Inr instr"
      and pred: "condition self AND cond instr \<noteq> 0"
      and div: "op instr = DIV"
      and zero: "Register_get (registers self ! nat (BitField_extract reg_src2_field w))
                   + offset instr = 0"
  proof -
    let ?s = "self\<lparr>memory := mem\<rparr>"
    have len: "length (registers ?s) = 16" using inv by (simp add: inv_regs(1))
    have arith: "op instr \<in> {ADD, SUB, MUL, DIV}" using div by simp
    have "step bus self = execute bus ?s instr" using fetch dec by (rule step_fetched)
    also note execute_arith [OF len dec _ arith, of bus]
    finally show ?thesis using pred zero div by (simp add: Let_def alu)
  qed
  with alu show ?thesis by blast
qed

theorem ALU_division_by_zero_is_V_witness:
  "CPU_inv (CPU_init [532971520 :: int]) \<and>
   decode 532971520 = Inr \<lparr>op = DIV, cond = ALWAYS, reg_target = 1, reg_src1 = 2,
                             reg_src2 = 0, offset = 0\<rparr> \<and>
   (\<exists>self'. step plain_Memory (CPU_init [532971520]) = Inr self' \<and> condition self' = V \<and>
      halted self' = halted (CPU_init [532971520 :: int]))"
proof -
  let ?s = "CPU_init [532971520 :: int]"
  let ?i = "\<lparr>op = DIV, cond = ALWAYS, reg_target = 1, reg_src1 = 2,
             reg_src2 = 0, offset = 0\<rparr>"
  have inv: "CPU_inv ?s" by (rule CPU_inv_init)
  have fetch: "Memory_get plain_Memory (memory ?s) (Register_get (registers ?s ! 15))
                 = Inr (532971520, [532971520])"
    by (rule CPU_init_fetch0)
  have dec: "decode 532971520 = Inr ?i" by code_simp
  have pred: "condition ?s AND cond ?i \<noteq> 0" by (simp add: CPU_init_def ALWAYS_value)
  have s2: "BitField_extract reg_src2_field 532971520 = 0" by code_simp
  have zero: "Register_get (registers ?s ! nat (BitField_extract reg_src2_field 532971520))
                + offset ?i = 0"
    using inv_reg0 [OF inv] by (simp add: s2)
  from ALU_division_by_zero_is_V [of 0 ?s plain_Memory 532971520 "[532971520]" ?i]
    inv fetch dec pred zero
  have "\<exists>self'. step plain_Memory ?s = Inr self' \<and> condition self' = V \<and>
      halted self' = halted ?s" by simp
  with inv dec show ?thesis by simp
qed

text \<open>
  Claim C7. A step changes the condition register only when it executes an arithmetic
  instruction: after an executed \<open>LOAD\<close>, \<open>STORE\<close> or \<open>HALT\<close>, and after an instruction
  whose predicate is not satisfied, the condition register is as before; after an
  executed \<open>ADD\<close>, \<open>SUB\<close>, \<open>MUL\<close> or \<open>DIV\<close> it holds the flag the ALU derived.
\<close>
theorem condition_updated_only_by_arithmetic:
  assumes "CPU_inv self"
    and "Memory_get bus (memory self) (Register_get (registers self ! 15)) = Inr (w, mem)"
    and "decode w = Inr instr"
    and "step bus self = Inr self'"
  shows "(op instr \<in> {LOAD, STORE, HALT} \<or> condition self AND cond instr = 0
            \<longrightarrow> condition self' = condition self) \<and>
         (op instr \<in> {ADD, SUB, MUL, DIV} \<and> condition self AND cond instr \<noteq> 0
            \<longrightarrow> condition self' =
                 snd (ALU_exec (op instr)
                   (Register_get (registers self ! nat (BitField_extract reg_src1_field w)))
                   (Register_get (registers self ! nat (BitField_extract reg_src2_field w))
                      + offset instr)))"
proof -
  let ?s = "self\<lparr>memory := mem\<rparr>"
  have len: "length (registers ?s) = 16" using assms(1) by (simp add: inv_regs(1))
  have ex: "execute bus ?s instr = Inr self'"
    using step_fetched [OF assms(2,3)] assms(4) by simp
  have skip: "condition self' = condition self" if "condition self AND cond instr = 0"
    using ex that by (auto simp: execute_skip)
  have halt: "condition self' = condition self"
    if "condition self AND cond instr \<noteq> 0" "op instr = HALT"
    using ex execute_HALT [OF len assms(3) _ that(2), of bus] that(1) by auto
  have store: "condition self' = condition self"
    if "condition self AND cond instr \<noteq> 0" "op instr = STORE"
    using ex execute_STORE [OF len assms(3) _ that(2), of bus] that(1)
    by (auto simp: Let_def split: sum.splits)
  have load: "condition self' = condition self"
    if "condition self AND cond instr \<noteq> 0" "op instr = LOAD"
    using ex execute_LOAD [OF len assms(3) _ that(2), of bus] that(1)
    by (auto simp: Let_def split: sum.splits prod.splits)
  have arith: "condition self' =
                 snd (ALU_exec (op instr)
                   (Register_get (registers self ! nat (BitField_extract reg_src1_field w)))
                   (Register_get (registers self ! nat (BitField_extract reg_src2_field w))
                      + offset instr))"
    if "condition self AND cond instr \<noteq> 0" "op instr \<in> {ADD, SUB, MUL, DIV}"
    using ex execute_arith [OF len assms(3) _ that(2), of bus] that(1)
    by (auto simp: Let_def)
  from skip halt store load arith show ?thesis by blast
qed


lemma step_load:
  "step plain_Memory (CPU_init [130285569, 42])
   = Inr \<lparr>memory = [130285569, 42],
          registers = [ZeroRegister 0, Register 42, Register 0, Register 0, Register 0,
            Register 0, Register 0, Register 0, Register 0, Register 0, Register 0,
            Register 0, Register 0, Register 0, Register 0, Register 1],
          condition = ALWAYS, halted = False\<rparr>"
  by code_simp

theorem condition_updated_only_by_arithmetic_witness:
  "CPU_inv (CPU_init [130285569 :: int, 42]) \<and>
   decode 130285569 = Inr \<lparr>op = LOAD, cond = ALWAYS, reg_target = 1, reg_src1 = 0,
                             reg_src2 = 0, offset = 1\<rparr> \<and>
   (\<exists>self'. step plain_Memory (CPU_init [130285569, 42]) = Inr self' \<and>
      Register_get (registers self' ! 1) = 42 \<and>
      condition self' = condition (CPU_init [130285569 :: int, 42]))"
proof -
  let ?s = "CPU_init [130285569 :: int, 42]"
  let ?i = "\<lparr>op = LOAD, cond = ALWAYS, reg_target = 1, reg_src1 = 0,
             reg_src2 = 0, offset = 1\<rparr>"
  let ?s' = "\<lparr>memory = [130285569 :: int, 42],
          registers = [ZeroRegister 0, Register 42, Register 0, Register 0, Register 0,
            Register 0, Register 0, Register 0, Register 0, Register 0, Register 0,
            Register 0, Register 0, Register 0, Register 0, Register 1],
          condition = ALWAYS, halted = False\<rparr>"
  have inv: "CPU_inv ?s" by (rule CPU_inv_init)
  have fetch: "Memory_get plain_Memory (memory ?s) (Register_get (registers ?s ! 15))
                 = Inr (130285569, [130285569, 42])"
    by (rule CPU_init_fetch0)
  have dec: "decode 130285569 = Inr ?i" by code_simp
  have st: "step plain_Memory ?s = Inr ?s'" by (rule step_load)
  have "condition ?s' = condition ?s"
    using condition_updated_only_by_arithmetic [OF inv fetch dec st] by simp
  with inv dec st show ?thesis by simp
qed




end
